theory Spec2Isabelle
  imports Main "HOL-Library.Multiset"
begin

section \<open>The type registry (GraphQLSchema)\<close>

text \<open>
  A type reference is a named type of the schema, possibly wrapped in list and non-null
  wrappers. The JavaScript objects refer to each other by pointer; the model refers to a named
  type by its name and looks the definition up in the schema's type map.
\<close>

datatype graphQLType =
    NamedTypeRef string
  | GraphQLList graphQLType
  | GraphQLNonNull graphQLType

datatype fieldDef = FieldDef (fieldType: graphQLType) (fieldArgs: "string list")

datatype graphQLNamedType =
    GraphQLObjectType "(string \<times> fieldDef) list" "string list"
  | GraphQLInterfaceType "(string \<times> fieldDef) list"
  | GraphQLUnionType "string list"
  | GraphQLScalarType
  | GraphQLEnumType
  | GraphQLInputObjectType

record graphQLSchema =
  typeMap :: "(string \<times> graphQLNamedType) list"
  queryTypeName :: "string option"
  mutationTypeName :: "string option"
  subscriptionTypeName :: "string option"

text \<open>
  Every schema of graphql-js holds the built-in scalar \<open>String\<close> under that name (the
  introspection types refer to it, and a second type of that name is rejected), so the lookup
  answers it before the type map is asked.
\<close>

definition typeDefinition :: "graphQLSchema \<Rightarrow> string \<Rightarrow> graphQLNamedType option" where
  "typeDefinition schema n =
     (if n = ''String'' then Some GraphQLScalarType else map_of (typeMap schema) n)"

definition getType :: "graphQLSchema \<Rightarrow> string \<Rightarrow> graphQLType option" where
  "getType schema n =
     (case typeDefinition schema n of None \<Rightarrow> None | Some d \<Rightarrow> Some (NamedTypeRef n))"

definition getQueryType :: "graphQLSchema \<Rightarrow> graphQLType option" where
  "getQueryType schema = map_option NamedTypeRef (queryTypeName schema)"

definition getMutationType :: "graphQLSchema \<Rightarrow> graphQLType option" where
  "getMutationType schema = map_option NamedTypeRef (mutationTypeName schema)"

definition getSubscriptionType :: "graphQLSchema \<Rightarrow> graphQLType option" where
  "getSubscriptionType schema = map_option NamedTypeRef (subscriptionTypeName schema)"

text \<open>
  \<open>resolveType\<close> strips the wrappers; \<open>undefined\<close> (here \<open>None\<close>) is an instance of
  neither wrapper and is returned as it is.
\<close>

fun resolveType :: "graphQLType option \<Rightarrow> graphQLType option" where
  "resolveType None = None"
| "resolveType (Some (NamedTypeRef n)) = Some (NamedTypeRef n)"
| "resolveType (Some (GraphQLList t)) = resolveType (Some t)"
| "resolveType (Some (GraphQLNonNull t)) = resolveType (Some t)"

text \<open>The \<open>instanceof\<close> tests of the visitor, on a resolved type.\<close>

definition namedDefinition :: "graphQLSchema \<Rightarrow> graphQLType option \<Rightarrow> graphQLNamedType option" where
  "namedDefinition schema t =
     (case t of Some (NamedTypeRef n) \<Rightarrow> typeDefinition schema n | _ \<Rightarrow> None)"

definition isObjectOrInterface :: "graphQLSchema \<Rightarrow> graphQLType option \<Rightarrow> bool" where
  "isObjectOrInterface schema t =
     (case namedDefinition schema t of
        Some (GraphQLObjectType fs is) \<Rightarrow> True
      | Some (GraphQLInterfaceType fs) \<Rightarrow> True
      | _ \<Rightarrow> False)"

definition isUnion :: "graphQLSchema \<Rightarrow> graphQLType option \<Rightarrow> bool" where
  "isUnion schema t =
     (case namedDefinition schema t of Some (GraphQLUnionType ms) \<Rightarrow> True | _ \<Rightarrow> False)"

definition getFields :: "graphQLSchema \<Rightarrow> graphQLType option \<Rightarrow> (string \<times> fieldDef) list" where
  "getFields schema t =
     (case namedDefinition schema t of
        Some (GraphQLObjectType fs is) \<Rightarrow> fs
      | Some (GraphQLInterfaceType fs) \<Rightarrow> fs
      | _ \<Rightarrow> [])"

definition TypeNameMetaFieldDef :: fieldDef where
  "TypeNameMetaFieldDef = FieldDef (GraphQLNonNull (NamedTypeRef ''String'')) []"

section \<open>The query document\<close>

datatype valueNode =
    Variable string
  | IntValue string
  | FloatValue string
  | StringValue string
  | BooleanValue bool
  | NullValue
  | EnumValue string
  | ListValue "valueNode list"
  | ObjectValue "objectFieldNode list"
and objectFieldNode = ObjectField string valueNode

datatype argumentNode = Argument (argName: string) (argValue: valueNode)

datatype directiveNode = Directive string "argumentNode list"

text \<open>
  A selection set node carries nothing but its selections, so it is the list of them. The
  arguments and the selection set of a field are optional in the AST, and the code tests for
  them.
\<close>

datatype selectionNode =
    Field "string option" string "argumentNode list option" "directiveNode list"
      "selectionNode list option"
  | FragmentSpread string "directiveNode list"
  | InlineFragment "string option" "directiveNode list" "selectionNode list"

datatype operationType = Query | Mutation | Subscription

datatype typeNode = NamedType string | ListType typeNode | NonNullType typeNode

datatype variableDefinitionNode =
  VariableDefinition (variableName: string) (variableType: typeNode)
    (defaultValue: "valueNode option")

datatype operationDefinitionNode =
  OperationDefinition (operation: operationType) (operationName: "string option")
    (variableDefinitions: "variableDefinitionNode list")
    (operationDirectives: "directiveNode list")
    (operationSelectionSet: "selectionNode list")

datatype fragmentDefinitionNode =
  FragmentDefinition (fragmentName: string) (typeCondition: string)
    (fragmentDirectives: "directiveNode list")
    (fragmentSelectionSet: "selectionNode list")

datatype definitionNode =
    OperationDef operationDefinitionNode
  | FragmentDef fragmentDefinitionNode
  | TypeSystemDef string

type_synonym documentNode = "definitionNode list"

section \<open>The variables of a subtree, in visiting order\<close>

text \<open>
  \<open>visit\<close> walks the keys of a node in the order of \<open>QueryDocumentKeys\<close>: a field's arguments,
  then its directives, then its selection set. These functions list the \<open>Variable\<close> nodes a walk
  meets, in that order.
\<close>

fun variablesOfValue :: "valueNode \<Rightarrow> string list"
and variablesOfObjectField :: "objectFieldNode \<Rightarrow> string list" where
  "variablesOfValue (Variable n) = [n]"
| "variablesOfValue (ListValue vs) = concat (map variablesOfValue vs)"
| "variablesOfValue (ObjectValue fs) = concat (map variablesOfObjectField fs)"
| "variablesOfValue (IntValue v) = []"
| "variablesOfValue (FloatValue v) = []"
| "variablesOfValue (StringValue v) = []"
| "variablesOfValue (BooleanValue b) = []"
| "variablesOfValue NullValue = []"
| "variablesOfValue (EnumValue v) = []"
| "variablesOfObjectField (ObjectField n v) = variablesOfValue v"

definition variablesOfArguments :: "argumentNode list \<Rightarrow> string list" where
  "variablesOfArguments args = concat (map (\<lambda>arg. variablesOfValue (argValue arg)) args)"

fun variablesOfDirective :: "directiveNode \<Rightarrow> string list" where
  "variablesOfDirective (Directive n args) = variablesOfArguments args"

definition variablesOfDirectives :: "directiveNode list \<Rightarrow> string list" where
  "variablesOfDirectives ds = concat (map variablesOfDirective ds)"

definition variablesOfOptArguments :: "argumentNode list option \<Rightarrow> string list" where
  "variablesOfOptArguments args = (case args of None \<Rightarrow> [] | Some as \<Rightarrow> variablesOfArguments as)"

fun variablesOfSelection :: "selectionNode \<Rightarrow> string list"
and variablesOfSelections :: "selectionNode list \<Rightarrow> string list" where
  "variablesOfSelection (Field a n args ds sel) =
     variablesOfOptArguments args @ variablesOfDirectives ds @
     (case sel of None \<Rightarrow> [] | Some ss \<Rightarrow> variablesOfSelections ss)"
| "variablesOfSelection (FragmentSpread n ds) = variablesOfDirectives ds"
| "variablesOfSelection (InlineFragment tc ds ss) =
     variablesOfDirectives ds @ variablesOfSelections ss"
| "variablesOfSelections [] = []"
| "variablesOfSelections (x # xs) = variablesOfSelection x @ variablesOfSelections xs"

fun spreadsOfSelection :: "selectionNode \<Rightarrow> string list"
and spreadsOfSelections :: "selectionNode list \<Rightarrow> string list" where
  "spreadsOfSelection (Field a n args ds sel) =
     (case sel of None \<Rightarrow> [] | Some ss \<Rightarrow> spreadsOfSelections ss)"
| "spreadsOfSelection (FragmentSpread n ds) = [n]"
| "spreadsOfSelection (InlineFragment tc ds ss) = spreadsOfSelections ss"
| "spreadsOfSelections [] = []"
| "spreadsOfSelections (x # xs) = spreadsOfSelection x @ spreadsOfSelections xs"

section \<open>filterSelectionSet: the visitor and its closure state\<close>

text \<open>
  The three arrays the visitor closes over. The head of \<open>typeStack\<close> is the last element of the
  JavaScript array (its top); an element is \<open>None\<close> where the array holds \<open>undefined\<close>.
\<close>

record visitState =
  typeStack :: "graphQLType option list"
  usedFragments :: "string list"
  usedVariables :: "string list"

text \<open>\<open>typeStack[typeStack.length - 1]\<close>: \<open>undefined\<close> on the empty array.\<close>

definition stackTop :: "graphQLType option list \<Rightarrow> graphQLType option" where
  "stackTop st = (case st of [] \<Rightarrow> None | t # ts \<Rightarrow> t)"

text \<open>\<open>typeStack.pop()\<close>: the empty array stays empty and \<open>undefined\<close> is returned.\<close>

definition stackPop :: "graphQLType option list \<Rightarrow> graphQLType option list" where
  "stackPop st = (case st of [] \<Rightarrow> [] | t # ts \<Rightarrow> ts)"

text \<open>
  The \<open>enter\<close> function of the \<open>Field\<close> visitor. \<open>None\<close> is \<open>return null\<close> (the node is deleted,
  its children are not visited and \<open>leave\<close> is not called); otherwise the arguments of the node
  that the walk continues with are returned, with the state.
\<close>

definition fieldEnter ::
  "graphQLSchema \<Rightarrow> string \<Rightarrow> argumentNode list option \<Rightarrow> visitState \<Rightarrow>
     (argumentNode list option \<times> visitState) option" where
  "fieldEnter schema name args s =
     (let parentType = resolveType (stackTop (typeStack s)) in
      if isObjectOrInterface schema parentType then
        (let fields = getFields schema parentType;
             field = (if name = ''__typename'' then Some TypeNameMetaFieldDef
                      else map_of fields name)
         in case field of
              None \<Rightarrow> None
            | Some fd \<Rightarrow>
                (let s1 = s\<lparr>typeStack := Some (fieldType fd) # typeStack s\<rparr>;
                     argNames = fieldArgs fd
                 in case args of
                      None \<Rightarrow> Some (None, s1)
                    | Some as \<Rightarrow>
                        (let args' = filter (\<lambda>arg. argName arg \<in> set argNames) as
                         in if length args' \<noteq> length as then Some (Some args', s1)
                            else Some (Some as, s1))))
      else if isUnion schema parentType \<and> name = ''__typename'' then
        Some (args, s\<lparr>typeStack := Some (fieldType TypeNameMetaFieldDef) # typeStack s\<rparr>)
      else Some (args, s))"

text \<open>
  \<open>usedVariables.indexOf\<close> followed by \<open>splice(index, 1)\<close>: the first occurrence goes, and
  nothing happens when there is none.
\<close>

definition retractVariable :: "string \<Rightarrow> string list \<Rightarrow> string list" where
  "retractVariable v used = remove1 v used"

definition selectionsOf :: "selectionNode \<Rightarrow> selectionNode list option" where
  "selectionsOf node =
     (case node of
        Field a n args ds sel \<Rightarrow> sel
      | FragmentSpread n ds \<Rightarrow> None
      | InlineFragment tc ds ss \<Rightarrow> Some ss)"

text \<open>
  The \<open>leave\<close> function of the \<open>Field\<close> visitor, called with the node as edited below it.
  \<open>None\<close> is \<open>return null\<close>.
\<close>

definition fieldLeave ::
  "graphQLSchema \<Rightarrow> selectionNode \<Rightarrow> visitState \<Rightarrow> selectionNode option \<times> visitState" where
  "fieldLeave schema node s =
     (let currentType = stackTop (typeStack s);
          s1 = s\<lparr>typeStack := stackPop (typeStack s)\<rparr>;
          resolvedType = resolveType currentType
      in if isObjectOrInterface schema resolvedType then
           (let selections = selectionsOf node
            in if selections = None \<or> selections = Some [] then
                 (None, s1\<lparr>usedVariables :=
                    fold retractVariable (variablesOfSelection node) (usedVariables s1)\<rparr>)
               else (Some node, s1))
         else (Some node, s1))"

text \<open>
  The \<open>enter\<close> function of the \<open>InlineFragment\<close> visitor; \<open>None\<close> is \<open>return null\<close>.
  \<open>implementsAbstractType\<close> lives in a module of its own and is a parameter of the model.
\<close>

type_synonym implementsAbstractTypeFn =
  "graphQLSchema \<Rightarrow> graphQLType option \<Rightarrow> graphQLType option \<Rightarrow> bool"

definition inlineFragmentEnter ::
  "implementsAbstractTypeFn \<Rightarrow> graphQLSchema \<Rightarrow> string option \<Rightarrow> visitState \<Rightarrow>
     visitState option" where
  "inlineFragmentEnter implementsAbstractType schema tc s =
     (case tc of
        Some tn \<Rightarrow>
          (let innerType = getType schema tn;
               parentType = resolveType (stackTop (typeStack s))
           in if implementsAbstractType schema parentType innerType
              then Some (s\<lparr>typeStack := innerType # typeStack s\<rparr>)
              else None)
      | None \<Rightarrow> Some s)"

text \<open>
  The walk of \<open>visit\<close> over a selection and over the array of selections of a selection set.
  A deleted selection is \<open>None\<close> and is spliced out of the array; a function visitor
  (\<open>FragmentSpread\<close>, \<open>Variable\<close>) runs on entering only.
\<close>

fun visitSelection ::
  "implementsAbstractTypeFn \<Rightarrow> graphQLSchema \<Rightarrow> (string \<Rightarrow> graphQLType option) \<Rightarrow>
     selectionNode \<Rightarrow> visitState \<Rightarrow> selectionNode option \<times> visitState"
and visitSelections ::
  "implementsAbstractTypeFn \<Rightarrow> graphQLSchema \<Rightarrow> (string \<Rightarrow> graphQLType option) \<Rightarrow>
     selectionNode list \<Rightarrow> visitState \<Rightarrow> selectionNode list \<times> visitState" where
  "visitSelection iat schema validFragments (Field a n args ds sel) s =
     (case fieldEnter schema n args s of
        None \<Rightarrow> (None, s)
      | Some (args', s1) \<Rightarrow>
          (let s2 = s1\<lparr>usedVariables :=
                 usedVariables s1 @ variablesOfOptArguments args' @ variablesOfDirectives ds\<rparr>
           in case sel of
                None \<Rightarrow> fieldLeave schema (Field a n args' ds None) s2
              | Some ss \<Rightarrow>
                  (case visitSelections iat schema validFragments ss s2 of
                     (ss', s3) \<Rightarrow> fieldLeave schema (Field a n args' ds (Some ss')) s3)))"
| "visitSelection iat schema validFragments (FragmentSpread n ds) s =
     (case validFragments n of
        Some innerType \<Rightarrow>
          (let parentType = resolveType (stackTop (typeStack s))
           in if \<not> iat schema parentType (Some innerType) then (None, s)
              else (Some (FragmentSpread n ds),
                    s\<lparr>usedFragments := usedFragments s @ [n],
                      usedVariables := usedVariables s @ variablesOfDirectives ds\<rparr>))
      | None \<Rightarrow> (None, s))"
| "visitSelection iat schema validFragments (InlineFragment tc ds ss) s =
     (case inlineFragmentEnter iat schema tc s of
        None \<Rightarrow> (None, s)
      | Some s1 \<Rightarrow>
          (let s2 = s1\<lparr>usedVariables := usedVariables s1 @ variablesOfDirectives ds\<rparr>
           in case visitSelections iat schema validFragments ss s2 of
                (ss', s3) \<Rightarrow>
                  (Some (InlineFragment tc ds ss'),
                   s3\<lparr>typeStack := stackPop (typeStack s3)\<rparr>)))"
| "visitSelections iat schema validFragments [] s = ([], s)"
| "visitSelections iat schema validFragments (x # xs) s =
     (case visitSelection iat schema validFragments x s of
        (r, s1) \<Rightarrow>
          (case visitSelections iat schema validFragments xs s1 of
             (rs, s2) \<Rightarrow> ((case r of None \<Rightarrow> rs | Some x' \<Rightarrow> x' # rs), s2)))"

definition initialState :: "graphQLType option \<Rightarrow> visitState" where
  "initialState type = \<lparr>typeStack = [type], usedFragments = [], usedVariables = []\<rparr>"

definition filterSelectionSet ::
  "implementsAbstractTypeFn \<Rightarrow> graphQLSchema \<Rightarrow> graphQLType option \<Rightarrow>
     (string \<Rightarrow> graphQLType option) \<Rightarrow> selectionNode list \<Rightarrow>
     selectionNode list \<times> string list \<times> string list" where
  "filterSelectionSet iat schema type validFragments selectionSet =
     (case visitSelections iat schema validFragments selectionSet (initialState type) of
        (filteredSelectionSet, s) \<Rightarrow> (filteredSelectionSet, usedFragments s, usedVariables s))"

section \<open>union\<close>

text \<open>
  The arrays are walked in order and an item is pushed the first time it is met. The cache
  object is the set of the items met so far; the cache is an object literal, and the names of
  the members of \<open>Object.prototype\<close> are taken not to occur as items.
\<close>

definition unionItem :: "string \<Rightarrow> string set \<times> string list \<Rightarrow> string set \<times> string list" where
  "unionItem item acc =
     (case acc of (cache, result) \<Rightarrow>
        if item \<in> cache then (cache, result) else (insert item cache, result @ [item]))"

definition unionArrays :: "string list list \<Rightarrow> string list" where
  "unionArrays arrays = snd (fold (\<lambda>array. fold unionItem array) arrays ({}, []))"

section \<open>collectFragmentVariables\<close>

text \<open>
  The state of the worklist loop. The parameter \<open>usedFragments\<close> is first the caller's array
  itself, so \<open>pop\<close> shortens the caller's array too, until the parameter is assigned the fresh
  array of \<open>union\<close>: \<open>cAliased\<close> says whether the two are still the same object, and
  \<open>cCallerArray\<close> is what the caller's array holds. \<open>fragmentSet\<close> is the caller's object,
  changed in place and returned.
\<close>

record collectState =
  cUsedFragments :: "string list"
  cCallerArray :: "string list"
  cAliased :: bool
  cUsedVariables :: "string list"
  cNewFragments :: "fragmentDefinitionNode list"
  cFragmentSet :: "string set"

text \<open>One turn of the \<open>while\<close> loop; the worklist is not empty when it runs.\<close>

definition collectStep ::
  "implementsAbstractTypeFn \<Rightarrow> graphQLSchema \<Rightarrow> fragmentDefinitionNode list \<Rightarrow>
     (string \<Rightarrow> graphQLType option) \<Rightarrow> collectState \<Rightarrow> collectState" where
  "collectStep iat schema validFragments validFragmentsWithType st =
     (let nextFragmentName = last (cUsedFragments st);
          rest = butlast (cUsedFragments st);
          st1 = st\<lparr>cUsedFragments := rest,
                   cCallerArray := (if cAliased st then rest else cCallerArray st)\<rparr>
      in case find (\<lambda>fr. fragmentName fr = nextFragmentName) validFragments of
           None \<Rightarrow> st1
         | Some fragment \<Rightarrow>
             (let name = nextFragmentName;
                  typeName = typeCondition fragment;
                  type = getType schema typeName
              in case filterSelectionSet iat schema type validFragmentsWithType
                        (fragmentSelectionSet fragment) of
                   (selectionSet, fragmentUsedFragments, fragmentUsedVariables) \<Rightarrow>
                     (let st2 = st1\<lparr>cUsedFragments := unionArrays [rest, fragmentUsedFragments],
                                     cAliased := False,
                                     cUsedVariables :=
                                       unionArrays [cUsedVariables st1, fragmentUsedVariables]\<rparr>
                      in if name \<notin> cFragmentSet st2 then
                           st2\<lparr>cFragmentSet := insert name (cFragmentSet st2),
                               cNewFragments := cNewFragments st2 @
                                 [FragmentDefinition name (typeCondition fragment) [] selectionSet]\<rparr>
                         else st2)))"

text \<open>The loop may run forever; then the result is \<open>None\<close>.\<close>

partial_function (option) collectLoop ::
  "implementsAbstractTypeFn \<Rightarrow> graphQLSchema \<Rightarrow> fragmentDefinitionNode list \<Rightarrow>
     (string \<Rightarrow> graphQLType option) \<Rightarrow> collectState \<Rightarrow> collectState option" where
  "collectLoop iat schema validFragments validFragmentsWithType st =
     (if cUsedFragments st = [] then Some st
      else collectLoop iat schema validFragments validFragmentsWithType
             (collectStep iat schema validFragments validFragmentsWithType st))"

declare collectLoop.simps [code]

definition collectFragmentVariables ::
  "implementsAbstractTypeFn \<Rightarrow> graphQLSchema \<Rightarrow> string set \<Rightarrow> fragmentDefinitionNode list \<Rightarrow>
     (string \<Rightarrow> graphQLType option) \<Rightarrow> string list \<Rightarrow> collectState option" where
  "collectFragmentVariables iat schema fragmentSet validFragments validFragmentsWithType
       usedFragmentsArg =
     collectLoop iat schema validFragments validFragmentsWithType
       \<lparr>cUsedFragments = usedFragmentsArg, cCallerArray = usedFragmentsArg, cAliased = True,
        cUsedVariables = [], cNewFragments = [], cFragmentSet = fragmentSet\<rparr>"

section \<open>filterDocumentToSchema\<close>

text \<open>The variables that the callback of \<open>operations.forEach\<close> assigns.\<close>

record documentState =
  dUsedFragments :: "string list"
  dNewOperations :: "operationDefinitionNode list"
  dNewFragments :: "fragmentDefinitionNode list"
  dFragmentSet :: "string set"

definition rootType :: "graphQLSchema \<Rightarrow> operationType \<Rightarrow> graphQLType option" where
  "rootType schema ot =
     (if ot = Subscription then getSubscriptionType schema
      else if ot = Mutation then getMutationType schema
      else getQueryType schema)"

text \<open>
  The callback of \<open>operations.forEach\<close>. The variable definitions of an operation are an
  array, as the parser builds it. The result is \<open>None\<close> when the worklist loop does not
  return.
\<close>

definition filterOperation ::
  "implementsAbstractTypeFn \<Rightarrow> graphQLSchema \<Rightarrow> fragmentDefinitionNode list \<Rightarrow>
     (string \<Rightarrow> graphQLType option) \<Rightarrow> documentState \<Rightarrow> operationDefinitionNode \<Rightarrow>
     documentState option" where
  "filterOperation iat schema validFragments validFragmentsWithType ds op =
     (let type = rootType schema (operation op)
      in case filterSelectionSet iat schema type validFragmentsWithType
                (operationSelectionSet op) of
           (selectionSet, operationUsedFragments, operationUsedVariables) \<Rightarrow>
             (let usedFragments1 = unionArrays [dUsedFragments ds, operationUsedFragments]
              in case collectFragmentVariables iat schema (dFragmentSet ds) validFragments
                        validFragmentsWithType usedFragments1 of
                   None \<Rightarrow> None
                 | Some c \<Rightarrow>
                     (let fullUsedVariables =
                            unionArrays [operationUsedVariables, cUsedVariables c];
                          variableDefinitions1 =
                            filter (\<lambda>v. variableName v \<in> set fullUsedVariables)
                              (variableDefinitions op)
                      in Some \<lparr>dUsedFragments = cCallerArray c,
                               dNewOperations = dNewOperations ds @
                                 [OperationDefinition (operation op) (operationName op)
                                    variableDefinitions1 (operationDirectives op) selectionSet],
                               dNewFragments = cNewFragments c,
                               dFragmentSet = cFragmentSet c\<rparr>)))"

fun forEachOperation ::
  "(documentState \<Rightarrow> operationDefinitionNode \<Rightarrow> documentState option) \<Rightarrow>
     operationDefinitionNode list \<Rightarrow> documentState \<Rightarrow> documentState option" where
  "forEachOperation f [] ds = Some ds"
| "forEachOperation f (op # ops) ds =
     (case f ds op of None \<Rightarrow> None | Some ds1 \<Rightarrow> forEachOperation f ops ds1)"

fun operationsOf :: "documentNode \<Rightarrow> operationDefinitionNode list" where
  "operationsOf [] = []"
| "operationsOf (OperationDef op # ds) = op # operationsOf ds"
| "operationsOf (d # ds) = operationsOf ds"

fun fragmentsOf :: "documentNode \<Rightarrow> fragmentDefinitionNode list" where
  "fragmentsOf [] = []"
| "fragmentsOf (FragmentDef fr # ds) = fr # fragmentsOf ds"
| "fragmentsOf (d # ds) = fragmentsOf ds"

definition validFragmentsOf ::
  "graphQLSchema \<Rightarrow> fragmentDefinitionNode list \<Rightarrow> fragmentDefinitionNode list" where
  "validFragmentsOf targetSchema fragments =
     filter (\<lambda>fragment. getType targetSchema (typeCondition fragment) \<noteq> None) fragments"

text \<open>
  \<open>validFragmentsWithType\<close>: a later fragment of the same name overwrites an earlier one.
  The object is looked up with \<open>in\<close> and by key; the names of \<open>Object.prototype\<close> are taken
  not to be fragment names.
\<close>

definition validFragmentsWithTypeOf ::
  "graphQLSchema \<Rightarrow> fragmentDefinitionNode list \<Rightarrow> (string \<Rightarrow> graphQLType option)" where
  "validFragmentsWithTypeOf targetSchema validFragments =
     fold (\<lambda>fragment m. m(fragmentName fragment := getType targetSchema (typeCondition fragment)))
       validFragments (\<lambda>n. None)"

definition filterDocumentToSchema ::
  "implementsAbstractTypeFn \<Rightarrow> graphQLSchema \<Rightarrow> documentNode \<Rightarrow> documentNode option" where
  "filterDocumentToSchema iat targetSchema document =
     (let operations = operationsOf document;
          fragments = fragmentsOf document;
          validFragments = validFragmentsOf targetSchema fragments;
          validFragmentsWithType = validFragmentsWithTypeOf targetSchema validFragments
      in case forEachOperation
                (filterOperation iat targetSchema validFragments validFragmentsWithType)
                operations
                \<lparr>dUsedFragments = [], dNewOperations = [], dNewFragments = [],
                 dFragmentSet = {}\<rparr> of
           None \<Rightarrow> None
         | Some ds \<Rightarrow>
             Some (map OperationDef (dNewOperations ds) @ map FragmentDef (dNewFragments ds)))"

section \<open>FilterToSchema.transformRequest\<close>

text \<open>
  A request holds the document and the variables; whatever else the object carries is the
  extension of the record, which the spread \<open>...originalRequest\<close> copies. The values of
  JavaScript that the variables and the resolver handle are a datatype; numbers are taken to be
  integers.
\<close>

datatype jsValue =
    JUndefined
  | JNull
  | JBool bool
  | JNumber int
  | JString string
  | JArray "jsValue list"
  | JObject "(string \<times> jsValue) list"

record request =
  document :: documentNode
  variables :: "(string \<times> jsValue) list"

definition transformRequest ::
  "implementsAbstractTypeFn \<Rightarrow> graphQLSchema \<Rightarrow> 'a request_scheme \<Rightarrow> 'a request_scheme option" where
  "transformRequest iat targetSchema originalRequest =
     (case filterDocumentToSchema iat targetSchema (document originalRequest) of
        None \<Rightarrow> None
      | Some document1 \<Rightarrow> Some (originalRequest\<lparr>document := document1\<rparr>))"

section \<open>defaultMergedResolver\<close>

datatype pathKey = Key string | Index nat

datatype responsePath = ResponsePath "responsePath option" pathKey

text \<open>\<open>responsePathAsArray\<close> of graphql-js: the keys from the root down.\<close>

fun responsePathAsArray :: "responsePath \<Rightarrow> pathKey list" where
  "responsePathAsArray (ResponsePath None k) = [k]"
| "responsePathAsArray (ResponsePath (Some p) k) = responsePathAsArray p @ [k]"

record resolveInfo =
  fieldName :: string
  fieldNodes :: "selectionNode list"
  path :: responsePath

record annotatedError =
  errorMessage :: string
  errorPath :: "pathKey list option"

text \<open>What \<open>getErrorsFromParent\<close> answers: an error of the field itself, or those below it.\<close>

datatype errorResult =
    OWN annotatedError
  | CHILDREN "annotatedError list option"

record graphQLError =
  message :: string
  nodes :: "selectionNode list"
  locatedPath :: "pathKey list"

text \<open>
  \<open>locatedError\<close> of graphql-js on a fresh \<open>Error\<close>, which has no path of its own: a
  GraphQLError with the message of the error, the given nodes and the given path.
\<close>

definition locatedError :: "string \<Rightarrow> selectionNode list \<Rightarrow> pathKey list \<Rightarrow> graphQLError" where
  "locatedError msg ns p = \<lparr>message = msg, nodes = ns, locatedPath = p\<rparr>"

text \<open>
  Truthiness, \<open>== null\<close> and property access. Only an object has properties in the model;
  on every other value the lookup answers \<open>undefined\<close>.
\<close>

fun truthy :: "jsValue \<Rightarrow> bool" where
  "truthy JUndefined = False"
| "truthy JNull = False"
| "truthy (JBool b) = b"
| "truthy (JNumber n) = (n \<noteq> 0)"
| "truthy (JString s) = (s \<noteq> [])"
| "truthy (JArray xs) = True"
| "truthy (JObject ps) = True"

definition isNullish :: "jsValue \<Rightarrow> bool" where
  "isNullish v = (v = JNull \<or> v = JUndefined)"

fun getProperty :: "jsValue \<Rightarrow> string \<Rightarrow> jsValue" where
  "getProperty (JObject ps) k = (case map_of ps k of None \<Rightarrow> JUndefined | Some v \<Rightarrow> v)"
| "getProperty v k = JUndefined"

text \<open>
  The resolver. \<open>getResponseKeyFromInfo\<close>, \<open>getErrorsFromParent\<close> and
  \<open>annotateWithChildrenErrors\<close> are imported from modules of their own and are parameters.
  A thrown error is \<open>Inl\<close>.
\<close>

definition defaultMergedResolver ::
  "(resolveInfo \<Rightarrow> string) \<Rightarrow> (jsValue \<Rightarrow> string \<Rightarrow> errorResult) \<Rightarrow>
     (jsValue \<Rightarrow> annotatedError list \<Rightarrow> jsValue) \<Rightarrow>
     jsValue \<Rightarrow> jsValue \<Rightarrow> jsValue \<Rightarrow> resolveInfo \<Rightarrow> graphQLError + jsValue" where
  "defaultMergedResolver getResponseKeyFromInfo getErrorsFromParent annotateWithChildrenErrors
       parent args context info =
     (if \<not> truthy parent then Inr JNull
      else
        (let responseKey = getResponseKeyFromInfo info;
             errorResult = getErrorsFromParent parent responseKey
         in case errorResult of
              OWN err \<Rightarrow>
                Inl (locatedError (errorMessage err) (fieldNodes info)
                       (responsePathAsArray (path info)))
            | CHILDREN errors \<Rightarrow>
                (let result = getProperty parent responseKey;
                     result1 = (if isNullish result then getProperty parent (fieldName info)
                                else result);
                     result2 = (if \<not> truthy result1 \<and> truthy (getProperty parent ''data'')
                                   \<and> truthy (getProperty (getProperty parent ''data'') responseKey)
                                then getProperty (getProperty parent ''data'') responseKey
                                else result1)
                 in case errors of
                      Some es \<Rightarrow> Inr (annotateWithChildrenErrors result2 es)
                    | None \<Rightarrow> Inr result2)))"

section \<open>implementsAbstractType\<close>

text \<open>
  Modelled from the spec: the possible types of an abstract type, which
  \<open>implementsAbstractType\<close> (module \<open>implementsAbstractType.ts\<close>, not among the sources) asks
  for. A type is a possible type of a union when it is one of its members, and of an interface
  when it is an object type that implements it.
\<close>

definition isPossibleType ::
  "graphQLSchema \<Rightarrow> graphQLType option \<Rightarrow> graphQLType option \<Rightarrow> bool" where
  "isPossibleType schema abstractType t =
     (case (abstractType, t) of
        (Some (NamedTypeRef an), Some (NamedTypeRef n)) \<Rightarrow>
          (case typeDefinition schema an of
             Some (GraphQLUnionType ms) \<Rightarrow> n \<in> set ms
           | Some (GraphQLInterfaceType fs) \<Rightarrow>
               (case typeDefinition schema n of
                  Some (GraphQLObjectType fs' is) \<Rightarrow> an \<in> set is
                | _ \<Rightarrow> False)
           | _ \<Rightarrow> False)
      | _ \<Rightarrow> False)"

text \<open>
  Modelled from the spec: \<open>implementsAbstractType\<close> (module \<open>implementsAbstractType.ts\<close>, not
  among the sources). The spec calls it an implements-or-equals check over interfaces and
  unions: two types are compatible when they are the same type, or when one of them is an
  interface or a union and the other one is a possible type of it. The functions above take
  the check as a parameter; this definition instantiates it on concrete inputs.
\<close>

definition implementsAbstractType :: implementsAbstractTypeFn where
  "implementsAbstractType schema typeA typeB =
     (typeA = typeB \<or> isPossibleType schema typeA typeB \<or> isPossibleType schema typeB typeA)"

section \<open>Example schema, documents and resolver inputs\<close>

text \<open>
  A schema in the shape of the booking schema of the tests: a customer with scalar fields, an
  address, a list of bookings taking a \<open>limit\<close> argument, and a union.
\<close>

definition exampleSchema :: graphQLSchema where
  "exampleSchema =
     \<lparr>typeMap =
        [(''Query'', GraphQLObjectType
            [(''customerById'', FieldDef (NamedTypeRef ''Customer'') [''id'']),
             (''u'', FieldDef (NamedTypeRef ''U'') []),
             (''name'', FieldDef (NamedTypeRef ''String'') [])] []),
         (''Customer'', GraphQLObjectType
            [(''id'', FieldDef (GraphQLNonNull (NamedTypeRef ''ID'')) []),
             (''name'', FieldDef (NamedTypeRef ''String'') []),
             (''address'', FieldDef (NamedTypeRef ''Address'') []),
             (''bookings'', FieldDef (GraphQLList (NamedTypeRef ''Booking'')) [''limit''])] []),
         (''Address'', GraphQLObjectType
            [(''street'', FieldDef (NamedTypeRef ''String'') [])] []),
         (''Booking'', GraphQLObjectType [(''id'', FieldDef (NamedTypeRef ''ID'') [])] []),
         (''U'', GraphQLUnionType [''Customer'', ''Booking'']),
         (''ID'', GraphQLScalarType)],
      queryTypeName = Some ''Query'', mutationTypeName = None, subscriptionTypeName = None\<rparr>"

definition leaf :: "string \<Rightarrow> selectionNode" where
  "leaf n = Field None n (Some []) [] None"

text \<open>
  \<open>query customerQuery($id: ID!, $limit: Int) { customerById(id: $id) { id name
  bookings(limit: $limit) { paid } } }\<close>, the query of the test on removing variables.
\<close>

definition customerQuery :: documentNode where
  "customerQuery =
     [OperationDef (OperationDefinition Query (Some ''customerQuery'')
        [VariableDefinition ''id'' (NonNullType (NamedType ''ID'')) None,
         VariableDefinition ''limit'' (NamedType ''Int'') None] []
        [Field None ''customerById'' (Some [Argument ''id'' (Variable ''id'')]) []
           (Some [leaf ''id'', leaf ''name'',
                  Field None ''bookings'' (Some [Argument ''limit'' (Variable ''limit'')]) []
                    (Some [leaf ''paid''])])])]"

text \<open>\<open>query customerQuery($id: ID!) { customerById(id: $id) { id name } }\<close>\<close>

definition customerQueryFiltered :: documentNode where
  "customerQueryFiltered =
     [OperationDef (OperationDefinition Query (Some ''customerQuery'')
        [VariableDefinition ''id'' (NonNullType (NamedType ''ID'')) None] []
        [Field None ''customerById'' (Some [Argument ''id'' (Variable ''id'')]) []
           (Some [leaf ''id'', leaf ''name''])])]"

definition customerRequest :: request where
  "customerRequest =
     \<lparr>document = customerQuery,
      variables = [(''id'', JString ''c1''), (''limit'', JNumber 10)]\<rparr>"

definition customerRequestFiltered :: request where
  "customerRequestFiltered =
     \<lparr>document = customerQueryFiltered,
      variables = [(''id'', JString ''c1''), (''limit'', JNumber 10)]\<rparr>"

definition exampleInfo :: resolveInfo where
  "exampleInfo =
     \<lparr>fieldName = ''name'', fieldNodes = [leaf ''name''],
      path = ResponsePath (Some (ResponsePath None (Key ''customerById''))) (Key ''name'')\<rparr>"

definition exampleResponseKey :: "resolveInfo \<Rightarrow> string" where
  "exampleResponseKey info = fieldName info"

definition ownErrorOnName :: "jsValue \<Rightarrow> string \<Rightarrow> errorResult" where
  "ownErrorOnName parent responseKey =
     (if responseKey = ''name''
      then OWN \<lparr>errorMessage = ''name failed'', errorPath = Some [Key ''name'']\<rparr>
      else CHILDREN (Some []))"

definition keepResult :: "jsValue \<Rightarrow> annotatedError list \<Rightarrow> jsValue" where
  "keepResult result errors = result"

section \<open>Predicates the properties are stated with\<close>



text \<open>
  The fragment spreads of a document, in its operations and in its fragment definitions, that
  name no fragment definition of the document.
\<close>

definition danglingSpreads :: "documentNode \<Rightarrow> string list" where
  "danglingSpreads doc =
     filter (\<lambda>n. n \<notin> fragmentName ` set (fragmentsOf doc))
       (concat (map (\<lambda>op. spreadsOfSelections (operationSelectionSet op)) (operationsOf doc))
        @ concat (map (\<lambda>fr. spreadsOfSelections (fragmentSelectionSet fr)) (fragmentsOf doc)))"

text \<open>
  An invariant of the worklist loop: the fragment set holds the names of the emitted fragments,
  and the given names and the spreads of the emitted fragments are emitted or still on the
  worklist, whose names are names of valid fragments.
\<close>

definition closedState :: "(string \<Rightarrow> graphQLType option) \<Rightarrow> string set \<Rightarrow> collectState \<Rightarrow> bool" where
  "closedState vf names st =
     (cFragmentSet st = fragmentName ` set (cNewFragments st) \<and>
      names \<subseteq> cFragmentSet st \<union> set (cUsedFragments st) \<and>
      (\<forall>f \<in> set (cNewFragments st).
         set (spreadsOfSelections (fragmentSelectionSet f))
           \<subseteq> cFragmentSet st \<union> set (cUsedFragments st)) \<and>
      (\<forall>n \<in> set (cUsedFragments st). vf n \<noteq> None))"

section \<open>Further example documents\<close>




text \<open>
  \<open>query { ...Loop }  fragment Loop on Query { name ...Loop }\<close>: a fragment that spreads
  itself. The parser accepts the document.
\<close>

definition loopFragment :: fragmentDefinitionNode where
  "loopFragment = FragmentDefinition ''Loop'' ''Query'' [] [leaf ''name'', FragmentSpread ''Loop'' []]"

definition cyclicDocument :: documentNode where
  "cyclicDocument =
     [OperationDef (OperationDefinition Query None [] [] [FragmentSpread ''Loop'' []]),
      FragmentDef loopFragment]"

text \<open>The state of the worklist loop on \<open>cyclicDocument\<close> after its first turn.\<close>

definition loopState :: collectState where
  "loopState = \<lparr>cUsedFragments = [''Loop''], cCallerArray = [], cAliased = False,
     cUsedVariables = [], cNewFragments = [loopFragment], cFragmentSet = {''Loop''}\<rparr>"

text \<open>
  \<open>query First { ...NameFields }  query Second { name }
  fragment NameFields on Query { name }\<close>
\<close>

definition nameFields :: fragmentDefinitionNode where
  "nameFields = FragmentDefinition ''NameFields'' ''Query'' [] [leaf ''name'']"

definition twoOperations :: documentNode where
  "twoOperations =
     [OperationDef (OperationDefinition Query (Some ''First'') [] [] [FragmentSpread ''NameFields'' []]),
      OperationDef (OperationDefinition Query (Some ''Second'') [] [] [leaf ''name'']),
      FragmentDef nameFields]"

section \<open>Documents that are valid against a schema\<close>


text \<open>
  The fragment definitions that a selection set reaches through its spreads, directly or
  through the spreads of a reached fragment; a name stands for the first definition of that
  name, as in \<open>validFragments.find\<close>.
\<close>

inductive_set reachableFragments ::
  "fragmentDefinitionNode list \<Rightarrow> string list \<Rightarrow> fragmentDefinitionNode set"
  for frs :: "fragmentDefinitionNode list" and names :: "string list" where
  direct: "n \<in> set names \<Longrightarrow> find (\<lambda>fr. fragmentName fr = n) frs = Some fr \<Longrightarrow>
             fr \<in> reachableFragments frs names"
| spread: "fr \<in> reachableFragments frs names \<Longrightarrow>
             n \<in> set (spreadsOfSelections (fragmentSelectionSet fr)) \<Longrightarrow>
             find (\<lambda>fr. fragmentName fr = n) frs = Some fr' \<Longrightarrow>
             fr' \<in> reachableFragments frs names"





text \<open>
  What \<open>print\<close> of graphql-js shows of a document: the definitions in their order, where an
  absent argument list prints as an empty one and an empty selection set as an absent one.
  Two documents print identically when they agree up to that.
\<close>

fun printedSelection :: "selectionNode \<Rightarrow> selectionNode"
and printedSelections :: "selectionNode list \<Rightarrow> selectionNode list" where
  "printedSelection (Field a n args ds sel) =
     Field a n (Some (case args of None \<Rightarrow> [] | Some as \<Rightarrow> as)) ds
       (case sel of
          None \<Rightarrow> None
        | Some ss \<Rightarrow> if ss = [] then None else Some (printedSelections ss))"
| "printedSelection (FragmentSpread n ds) = FragmentSpread n ds"
| "printedSelection (InlineFragment tc ds ss) = InlineFragment tc ds (printedSelections ss)"
| "printedSelections [] = []"
| "printedSelections (x # xs) = printedSelection x # printedSelections xs"





section \<open>The request outside the document\<close>

text \<open>
  C9. \<open>transformRequest\<close> changes the document of the request and nothing else: whenever it
  returns, the variables and every further field of the result are those of the original
  request.
\<close>

theorem transformRequest_changes_document_only:
  "transformRequest iat targetSchema originalRequest = Some r \<Longrightarrow>
     variables r = variables originalRequest \<and>
     request.more r = request.more originalRequest \<and>
     r = originalRequest\<lparr>document := document r\<rparr>"
  by (auto simp: transformRequest_def split: option.splits)

theorem transformRequest_changes_document_only_witness:
  "transformRequest implementsAbstractType exampleSchema customerRequest
     = Some customerRequestFiltered \<and>
   variables customerRequestFiltered = variables customerRequest \<and>
   request.more customerRequestFiltered = request.more customerRequest \<and>
   customerRequestFiltered = customerRequest\<lparr>document := document customerRequestFiltered\<rparr>"
proof -
  have run: "transformRequest implementsAbstractType exampleSchema customerRequest
               = Some customerRequestFiltered"
    by code_simp
  from transformRequest_changes_document_only [OF run] run show ?thesis
    by simp
qed

section \<open>The default merged resolver\<close>

text \<open>
  C10. On a falsy parent (\<open>null\<close>, \<open>undefined\<close>, \<open>false\<close>, \<open>0\<close>, the empty string) the resolver
  returns \<open>null\<close>: it does not throw, and the result is the same whatever
  \<open>getErrorsFromParent\<close> would have answered, since the parent is never handed to it.
\<close>

theorem defaultMergedResolver_falsy_parent:
  "\<not> truthy parent \<Longrightarrow>
     defaultMergedResolver getResponseKeyFromInfo getErrorsFromParent
       annotateWithChildrenErrors parent args context info = Inr JNull"
  by (simp add: defaultMergedResolver_def)

theorem defaultMergedResolver_falsy_parent_witness:
  "\<not> truthy JNull \<and>
   defaultMergedResolver exampleResponseKey ownErrorOnName keepResult
     JNull JUndefined JUndefined exampleInfo = Inr JNull"
  using defaultMergedResolver_falsy_parent
          [of JNull exampleResponseKey ownErrorOnName keepResult JUndefined JUndefined exampleInfo]
  by simp

text \<open>
  C6. When the parent is an object (so truthy) and \<open>getErrorsFromParent\<close> reports an error of
  kind \<open>OWN\<close> for the response key of the field, the resolver throws: the thrown located error
  has the message of the annotated error, the field nodes of the caller and, as its path, the
  caller's own response path.
\<close>

theorem defaultMergedResolver_own_error:
  "truthy parent \<Longrightarrow>
   getErrorsFromParent parent (getResponseKeyFromInfo info) = OWN err \<Longrightarrow>
     defaultMergedResolver getResponseKeyFromInfo getErrorsFromParent
       annotateWithChildrenErrors parent args context info
     = Inl \<lparr>message = errorMessage err, nodes = fieldNodes info,
             locatedPath = responsePathAsArray (path info)\<rparr>"
  by (simp add: defaultMergedResolver_def locatedError_def)

theorem defaultMergedResolver_own_error_witness:
  "truthy (JObject [(''name'', JNull)]) \<and>
   ownErrorOnName (JObject [(''name'', JNull)]) (exampleResponseKey exampleInfo)
     = OWN \<lparr>errorMessage = ''name failed'', errorPath = Some [Key ''name'']\<rparr> \<and>
   defaultMergedResolver exampleResponseKey ownErrorOnName keepResult
     (JObject [(''name'', JNull)]) JUndefined JUndefined exampleInfo
     = Inl \<lparr>message = ''name failed'', nodes = [leaf ''name''],
             locatedPath = [Key ''customerById'', Key ''name'']\<rparr>"
proof -
  have t: "truthy (JObject [(''name'', JNull)])"
    by simp
  have e: "ownErrorOnName (JObject [(''name'', JNull)]) (exampleResponseKey exampleInfo)
             = OWN \<lparr>errorMessage = ''name failed'', errorPath = Some [Key ''name'']\<rparr>"
    by (simp add: ownErrorOnName_def exampleResponseKey_def exampleInfo_def)
  have "defaultMergedResolver exampleResponseKey ownErrorOnName keepResult
          (JObject [(''name'', JNull)]) JUndefined JUndefined exampleInfo
        = Inl \<lparr>message = errorMessage \<lparr>errorMessage = ''name failed'', errorPath = Some [Key ''name'']\<rparr>,
                nodes = fieldNodes exampleInfo,
                locatedPath = responsePathAsArray (path exampleInfo)\<rparr>"
    using t e
    by (rule defaultMergedResolver_own_error
          [where getErrorsFromParent = ownErrorOnName
             and getResponseKeyFromInfo = exampleResponseKey])
  with t e show ?thesis
    by (simp add: exampleInfo_def)
qed

section \<open>The visitor: what enter and leave do to the state\<close>

lemma stackTop_Cons [simp]: "stackTop (t # ts) = t"
  by (simp add: stackTop_def)

lemma stackPop_Cons [simp]: "stackPop (t # ts) = ts"
  by (simp add: stackPop_def)

lemma fieldEnter_state:
  assumes "fieldEnter S n args s = Some (args', s1)"
  shows "usedFragments s1 = usedFragments s" and "usedVariables s1 = usedVariables s"
    and "(typeStack s1 = typeStack s \<and> \<not> isObjectOrInterface S (resolveType (stackTop (typeStack s))))
         \<or> (\<exists>t. typeStack s1 = t # typeStack s \<and>
               (isObjectOrInterface S (resolveType (stackTop (typeStack s))) \<or> n = ''__typename''))"
  using assms
  by (auto simp: fieldEnter_def Let_def split: if_splits option.splits)

lemma set_variablesOfArguments_filter:
  "set (variablesOfArguments (filter P as)) \<subseteq> set (variablesOfArguments as)"
  by (auto simp: variablesOfArguments_def)

lemma fieldEnter_arguments:
  assumes "fieldEnter S n args s = Some (args', s1)"
  shows "set (variablesOfOptArguments args') \<subseteq> set (variablesOfOptArguments args)"
  using assms set_variablesOfArguments_filter
  by (auto simp: fieldEnter_def Let_def variablesOfOptArguments_def
           split: if_splits option.splits)

lemma fieldLeave_None:
  assumes "fieldLeave S node s = (None, s')"
  shows "isObjectOrInterface S (resolveType (stackTop (typeStack s)))"
    and "selectionsOf node = None \<or> selectionsOf node = Some []"
    and "typeStack s' = stackPop (typeStack s)"
    and "usedFragments s' = usedFragments s"
    and "usedVariables s' = fold retractVariable (variablesOfSelection node) (usedVariables s)"
  using assms
  by (auto simp: fieldLeave_def Let_def split: if_splits)

lemma fieldLeave_Some:
  assumes "fieldLeave S node s = (Some node', s')"
  shows "node' = node" and "typeStack s' = stackPop (typeStack s)"
    and "usedFragments s' = usedFragments s" and "usedVariables s' = usedVariables s"
  using assms
  by (auto simp: fieldLeave_def Let_def split: if_splits)

lemma fieldLeave_kept:
  assumes "\<not> isObjectOrInterface S (resolveType (stackTop (typeStack s)))
           \<or> (selectionsOf node \<noteq> None \<and> selectionsOf node \<noteq> Some [])"
  shows "fieldLeave S node s = (Some node, s\<lparr>typeStack := stackPop (typeStack s)\<rparr>)"
  using assms by (auto simp: fieldLeave_def Let_def)

lemma visitSelection_InlineFragment_Some:
  "visitSelection iat S vf (InlineFragment tc ds ss) s = (None, s') \<Longrightarrow> s' = s"
  by (cases "inlineFragmentEnter iat S tc s")
     (auto simp: Let_def split: prod.splits)

lemma visitSelection_FragmentSpread_None:
  "visitSelection iat S vf (FragmentSpread n ds) s = (None, s') \<Longrightarrow> s' = s"
  by (cases "vf n") (auto simp: Let_def split: if_splits)

text \<open>
  A selection that the walk deletes leaves the type stack as it found it: a field deleted on
  entering was never pushed, and a field deleted on leaving had an empty selection set, so that
  nothing below it moved the stack and its own push is what is popped.
\<close>

lemma removed_keeps_stack:
  "visitSelection iat S vf x s = (None, s') \<Longrightarrow> typeStack s' = typeStack s"
  "visitSelections iat S vf xs s = ([], s') \<Longrightarrow> typeStack s' = typeStack s"
proof (induction iat S vf x s and iat S vf xs s arbitrary: s' and s' rule: visitSelection_visitSelections.induct)
  case (1 iat schema validFragments a n args ds sel s)
  note r = "1.prems"
  show ?case
  proof (cases "fieldEnter schema n args s")
    case None
    with r show ?thesis by simp
  next
    case (Some p)
    obtain args' s1 where p: "p = (args', s1)" by (cases p)
    define s2 where "s2 = s1\<lparr>usedVariables := usedVariables s1 @ variablesOfOptArguments args' @ variablesOfDirectives ds\<rparr>"
    note en = fieldEnter_state [OF Some [unfolded p]]
    show ?thesis
    proof (cases sel)
      case None
      with r Some p have lv: "fieldLeave schema (Field a n args' ds None) s2 = (None, s')"
        by (simp add: s2_def)
      from fieldLeave_None(1,3) [OF lv] en(3) show ?thesis
        by (auto simp: s2_def)
    next
      case (Some ss)
      obtain ss' s3 where v: "visitSelections iat schema validFragments ss s2 = (ss', s3)"
        by (cases "visitSelections iat schema validFragments ss s2")
      with r \<open>fieldEnter schema n args s = Some p\<close> p Some
      have lv: "fieldLeave schema (Field a n args' ds (Some ss')) s3 = (None, s')"
        by (simp add: s2_def)
      from fieldLeave_None(2) [OF lv] have "ss' = []"
        by (simp add: selectionsOf_def)
      with v "1.IH" [OF \<open>fieldEnter schema n args s = Some p\<close> p [symmetric] s2_def Some, of s3]
      have "typeStack s3 = typeStack s2" by simp
      with fieldLeave_None(1,3) [OF lv] en(3) show ?thesis
        by (auto simp: s2_def)
    qed
  qed
next
  case (2 iat schema validFragments n ds s)
  from visitSelection_FragmentSpread_None [OF "2.prems"] show ?case by simp
next
  case (3 iat schema validFragments tc ds ss s)
  from visitSelection_InlineFragment_Some [OF "3.prems"] show ?case by simp
next
  case (4 iat schema validFragments s)
  then show ?case by simp
next
  case (5 iat schema validFragments x xs s)
  note r = "5.prems"
  obtain r1 s1 where v1: "visitSelection iat schema validFragments x s = (r1, s1)"
    by (cases "visitSelection iat schema validFragments x s")
  obtain rs s2 where v2: "visitSelections iat schema validFragments xs s1 = (rs, s2)"
    by (cases "visitSelections iat schema validFragments xs s1")
  from r v1 v2 have e: "r1 = None" "rs = []" "s2 = s'"
    by (auto split: option.splits)
  from "5.IH"(1) [of s1] v1 e have "typeStack s1 = typeStack s" by simp
  moreover from "5.IH"(2) [OF v1 [symmetric], of s'] v2 e have "typeStack s' = typeStack s1" by simp
  ultimately show "typeStack s' = typeStack s" by simp
qed

section \<open>The meta field \<open>__typename\<close>\<close>

lemma string_not_object [simp]:
  "\<not> isObjectOrInterface S (Some (NamedTypeRef ''String''))"
  by (simp add: isObjectOrInterface_def namedDefinition_def typeDefinition_def)

lemma fieldEnter_typename:
  assumes "isObjectOrInterface S (resolveType (stackTop (typeStack s)))
           \<or> isUnion S (resolveType (stackTop (typeStack s)))"
  shows "\<exists>args'. fieldEnter S ''__typename'' args s =
           Some (args', s\<lparr>typeStack := Some (GraphQLNonNull (NamedTypeRef ''String'')) # typeStack s\<rparr>)"
  using assms
  by (auto simp: fieldEnter_def Let_def TypeNameMetaFieldDef_def split: option.splits)

text \<open>
  C8. A field named \<open>__typename\<close> that is visited while the top of the type stack resolves to
  an object, interface or union type is kept: the walk answers the field with its alias, name
  and directives. On entering, the type of the synthetic meta field (\<open>String!\<close>) is pushed
  whatever fields the parent type declares (\<open>fieldEnter_typename\<close>), and a scalar is never
  deleted on leaving.
\<close>

theorem typename_retained:
  assumes parent: "isObjectOrInterface S (resolveType (stackTop (typeStack s)))
                   \<or> isUnion S (resolveType (stackTop (typeStack s)))"
  shows "\<exists>args' sel' s'.
           visitSelection iat S vf (Field a ''__typename'' args ds sel) s
             = (Some (Field a ''__typename'' args' ds sel'), s')"
proof -
  define s1 where "s1 = s\<lparr>typeStack := Some (GraphQLNonNull (NamedTypeRef ''String'')) # typeStack s\<rparr>"
  from fieldEnter_typename [OF parent] obtain args'
    where en: "fieldEnter S ''__typename'' args s = Some (args', s1)"
    unfolding s1_def by blast
  define s2 where "s2 = s1\<lparr>usedVariables :=
      usedVariables s1 @ variablesOfOptArguments args' @ variablesOfDirectives ds\<rparr>"
  have top2: "typeStack s2 = Some (GraphQLNonNull (NamedTypeRef ''String'')) # typeStack s"
    by (simp add: s2_def s1_def)
  show ?thesis
  proof (cases sel)
    case None
    have "fieldLeave S (Field a ''__typename'' args' ds None) s2
            = (Some (Field a ''__typename'' args' ds None), s2\<lparr>typeStack := stackPop (typeStack s2)\<rparr>)"
      by (rule fieldLeave_kept) (simp add: top2)
    with en None show ?thesis
      by (simp add: s2_def)
  next
    case (Some ss)
    obtain ss' s3 where v: "visitSelections iat S vf ss s2 = (ss', s3)"
      by (cases "visitSelections iat S vf ss s2")
    have "\<not> isObjectOrInterface S (resolveType (stackTop (typeStack s3)))
          \<or> (selectionsOf (Field a ''__typename'' args' ds (Some ss')) \<noteq> None
              \<and> selectionsOf (Field a ''__typename'' args' ds (Some ss')) \<noteq> Some [])"
    proof (cases "ss' = []")
      case True
      with v removed_keeps_stack(2) have "typeStack s3 = typeStack s2"
        by blast
      with top2 show ?thesis by simp
    next
      case False
      then show ?thesis by (simp add: selectionsOf_def)
    qed
    from fieldLeave_kept [OF this] en Some v show ?thesis
      by (simp add: s2_def)
  qed
qed

theorem typename_retained_witness:
  "isObjectOrInterface exampleSchema
     (resolveType (stackTop (typeStack (initialState (getQueryType exampleSchema))))) \<and>
   (\<exists>args' sel' s'.
      visitSelection implementsAbstractType exampleSchema (\<lambda>n. None)
        (Field None ''__typename'' (Some []) [] None) (initialState (getQueryType exampleSchema))
      = (Some (Field None ''__typename'' args' [] sel'), s'))"
proof -
  have p: "isObjectOrInterface exampleSchema
     (resolveType (stackTop (typeStack (initialState (getQueryType exampleSchema)))))"
    by code_simp
  then have "isObjectOrInterface exampleSchema
     (resolveType (stackTop (typeStack (initialState (getQueryType exampleSchema)))))
     \<or> isUnion exampleSchema
     (resolveType (stackTop (typeStack (initialState (getQueryType exampleSchema)))))"
    by simp
  from typename_retained [OF this] p show ?thesis
    by blast
qed

section \<open>Used variables and used fragments\<close>

lemma retractVariable_remove1: "retractVariable = remove1"
  by (intro ext) (simp add: retractVariable_def)

lemma mset_fold_retractVariable:
  "mset (fold retractVariable xs ys) = mset ys - mset xs"
proof (induction xs arbitrary: ys)
  case Nil
  then show ?case by simp
next
  case (Cons x xs)
  have "mset (fold retractVariable (x # xs) ys) = mset (remove1 x ys) - mset xs"
    using Cons.IH [of "remove1 x ys"] by (simp add: retractVariable_remove1)
  also have "\<dots> = mset ys - mset (x # xs)"
    by simp
  finally show ?case .
qed

text \<open>
  After the walk, the used variables are those held before together with the variables of what
  the walk kept (as multisets: a retraction removes the first occurrence of the name, which may
  be an older one), and the used fragments are those held before followed by the spreads of
  what the walk kept.
\<close>

lemma visit_used:
  "visitSelection iat S vf x s = (r, s') \<Longrightarrow>
     mset (usedVariables s') = mset (usedVariables s)
        + mset (case r of None \<Rightarrow> [] | Some x' \<Rightarrow> variablesOfSelection x') \<and>
     usedFragments s' = usedFragments s
        @ (case r of None \<Rightarrow> [] | Some x' \<Rightarrow> spreadsOfSelection x')"
  "visitSelections iat S vf xs s = (rs, s') \<Longrightarrow>
     mset (usedVariables s') = mset (usedVariables s) + mset (variablesOfSelections rs) \<and>
     usedFragments s' = usedFragments s @ spreadsOfSelections rs"
proof (induction iat S vf x s and iat S vf xs s arbitrary: r s' and rs s'
       rule: visitSelection_visitSelections.induct)
  case (1 iat schema validFragments a n args ds sel s)
  note r = "1.prems"
  show ?case
  proof (cases "fieldEnter schema n args s")
    case None
    with r show ?thesis by auto
  next
    case (Some p)
    obtain args' s1 where p: "p = (args', s1)" by (cases p)
    define s2 where "s2 = s1\<lparr>usedVariables := usedVariables s1 @ variablesOfOptArguments args' @ variablesOfDirectives ds\<rparr>"
    note en = fieldEnter_state(1,2) [OF Some [unfolded p]]
    have uv2: "usedVariables s2 = usedVariables s @ variablesOfOptArguments args' @ variablesOfDirectives ds"
      and uf2: "usedFragments s2 = usedFragments s"
      using en by (simp_all add: s2_def)
    show ?thesis
    proof (cases sel)
      case None
      with r Some p have lv: "fieldLeave schema (Field a n args' ds None) s2 = (r, s')"
        by (simp add: s2_def)
      show ?thesis
      proof (cases r)
        case None
        from fieldLeave_None(4,5) [OF lv [unfolded None]] uv2 uf2 None show ?thesis
          by (simp add: mset_fold_retractVariable)
      next
        case (Some node)
        from fieldLeave_Some [OF lv [unfolded Some]] uv2 uf2 Some show ?thesis
          by simp
      qed
    next
      case (Some ss)
      obtain ss' s3 where v: "visitSelections iat schema validFragments ss s2 = (ss', s3)"
        by (cases "visitSelections iat schema validFragments ss s2")
      with r \<open>fieldEnter schema n args s = Some p\<close> p Some
      have lv: "fieldLeave schema (Field a n args' ds (Some ss')) s3 = (r, s')"
        by (simp add: s2_def)
      from "1.IH" [OF \<open>fieldEnter schema n args s = Some p\<close> p [symmetric] s2_def Some v]
      have ih: "mset (usedVariables s3) = mset (usedVariables s2) + mset (variablesOfSelections ss')"
        "usedFragments s3 = usedFragments s2 @ spreadsOfSelections ss'"
        by simp_all
      show ?thesis
      proof (cases r)
        case None
        from fieldLeave_None(2) [OF lv [unfolded None]] have "ss' = []"
          by (simp add: selectionsOf_def)
        with fieldLeave_None(4,5) [OF lv [unfolded None]] ih uv2 uf2 None show ?thesis
          by (simp add: mset_fold_retractVariable)
      next
        case (Some node)
        from fieldLeave_Some [OF lv [unfolded Some]] ih uv2 uf2 Some show ?thesis
          by simp
      qed
    qed
  qed
next
  case (2 iat schema validFragments n ds s)
  then show ?case by (cases "validFragments n") (auto simp: Let_def split: if_splits)
next
  case (3 iat schema validFragments tc ds ss s)
  note r = "3.prems"
  show ?case
  proof (cases "inlineFragmentEnter iat schema tc s")
    case None
    with r show ?thesis by auto
  next
    case (Some s1)
    define s2 where "s2 = s1\<lparr>usedVariables := usedVariables s1 @ variablesOfDirectives ds\<rparr>"
    obtain ss' s3 where v: "visitSelections iat schema validFragments ss s2 = (ss', s3)"
      by (cases "visitSelections iat schema validFragments ss s2")
    from Some have en: "usedVariables s1 = usedVariables s" "usedFragments s1 = usedFragments s"
      by (auto simp: inlineFragmentEnter_def Let_def split: option.splits if_splits)
    from "3.IH" [OF Some s2_def v] en
    have ih: "mset (usedVariables s3) = mset (usedVariables s) + mset (variablesOfDirectives ds) + mset (variablesOfSelections ss')"
        "usedFragments s3 = usedFragments s @ spreadsOfSelections ss'"
      by (simp_all add: s2_def)
    from r Some v have "r = Some (InlineFragment tc ds ss')" "s' = s3\<lparr>typeStack := stackPop (typeStack s3)\<rparr>"
      by (simp_all add: s2_def)
    with ih show ?thesis by simp
  qed
next
  case (4 iat schema validFragments s)
  then show ?case by simp
next
  case (5 iat schema validFragments x xs s)
  note r = "5.prems"
  obtain r1 s1 where v1: "visitSelection iat schema validFragments x s = (r1, s1)"
    by (cases "visitSelection iat schema validFragments x s")
  obtain rs2 s2 where v2: "visitSelections iat schema validFragments xs s1 = (rs2, s2)"
    by (cases "visitSelections iat schema validFragments xs s1")
  from r v1 v2 have e: "rs = (case r1 of None \<Rightarrow> rs2 | Some x' \<Rightarrow> x' # rs2)" "s2 = s'"
    by auto
  from "5.IH"(1) [OF v1] "5.IH"(2) [OF v1 [symmetric] v2] e show ?case
    by (cases r1) auto
qed

text \<open>Filtering removes variables and never adds one.\<close>

lemma filtered_variables_subset:
  "visitSelection iat S vf x s = (Some x', s') \<Longrightarrow>
     set (variablesOfSelection x') \<subseteq> set (variablesOfSelection x)"
  "visitSelections iat S vf xs s = (rs, s') \<Longrightarrow>
     set (variablesOfSelections rs) \<subseteq> set (variablesOfSelections xs)"
proof (induction iat S vf x s and iat S vf xs s arbitrary: x' s' and rs s'
       rule: visitSelection_visitSelections.induct)
  case (1 iat schema validFragments a n args ds sel s)
  note r = "1.prems"
  from r obtain p where en: "fieldEnter schema n args s = Some p"
    by (cases "fieldEnter schema n args s") auto
  obtain args' s1 where p: "p = (args', s1)" by (cases p)
  define s2 where "s2 = s1\<lparr>usedVariables := usedVariables s1 @ variablesOfOptArguments args' @ variablesOfDirectives ds\<rparr>"
  note sub = fieldEnter_arguments [OF en [unfolded p]]
  show ?case
  proof (cases sel)
    case None
    with r en p have lv: "fieldLeave schema (Field a n args' ds None) s2 = (Some x', s')"
      by (simp add: s2_def)
    from fieldLeave_Some(1) [OF lv] sub None show ?thesis
      by auto
  next
    case (Some ss)
    obtain ss' s3 where v: "visitSelections iat schema validFragments ss s2 = (ss', s3)"
      by (cases "visitSelections iat schema validFragments ss s2")
    with r en p Some
    have lv: "fieldLeave schema (Field a n args' ds (Some ss')) s3 = (Some x', s')"
      by (simp add: s2_def)
    from "1.IH" [OF en p [symmetric] s2_def Some v] fieldLeave_Some(1) [OF lv] sub Some
    show ?thesis
      by auto
  qed
next
  case (2 iat schema validFragments n ds s)
  then show ?case by (cases "validFragments n") (auto simp: Let_def split: if_splits)
next
  case (3 iat schema validFragments tc ds ss s)
  note r = "3.prems"
  from r obtain s1 where en: "inlineFragmentEnter iat schema tc s = Some s1"
    by (cases "inlineFragmentEnter iat schema tc s") auto
  define s2 where "s2 = s1\<lparr>usedVariables := usedVariables s1 @ variablesOfDirectives ds\<rparr>"
  obtain ss' s3 where v: "visitSelections iat schema validFragments ss s2 = (ss', s3)"
    by (cases "visitSelections iat schema validFragments ss s2")
  from r en v have "x' = InlineFragment tc ds ss'"
    by (simp add: s2_def)
  with "3.IH" [OF en s2_def v] show ?case
    by auto
next
  case (4 iat schema validFragments s)
  then show ?case by simp
next
  case (5 iat schema validFragments x xs s)
  note r = "5.prems"
  obtain r1 s1 where v1: "visitSelection iat schema validFragments x s = (r1, s1)"
    by (cases "visitSelection iat schema validFragments x s")
  obtain rs2 s2 where v2: "visitSelections iat schema validFragments xs s1 = (rs2, s2)"
    by (cases "visitSelections iat schema validFragments xs s1")
  from r v1 v2 have e: "rs = (case r1 of None \<Rightarrow> rs2 | Some x' \<Rightarrow> x' # rs2)"
    by auto
  show ?case
  proof (cases r1)
    case None
    with e "5.IH"(2) [OF v1 [symmetric] v2] show ?thesis by auto
  next
    case (Some y)
    with e "5.IH"(1) [OF v1 [unfolded Some]] "5.IH"(2) [OF v1 [symmetric] v2] show ?thesis
      by auto
  qed
qed

lemma spreads_are_valid_fragments:
  "visitSelection iat S vf x s = (Some x', s') \<Longrightarrow>
     \<forall>n \<in> set (spreadsOfSelection x'). vf n \<noteq> None"
  "visitSelections iat S vf xs s = (rs, s') \<Longrightarrow>
     \<forall>n \<in> set (spreadsOfSelections rs). vf n \<noteq> None"
proof (induction iat S vf x s and iat S vf xs s arbitrary: x' s' and rs s'
       rule: visitSelection_visitSelections.induct)
  case (1 iat schema validFragments a n args ds sel s)
  note r = "1.prems"
  from r obtain p where en: "fieldEnter schema n args s = Some p"
    by (cases "fieldEnter schema n args s") auto
  obtain args' s1 where p: "p = (args', s1)" by (cases p)
  define s2 where "s2 = s1\<lparr>usedVariables := usedVariables s1 @ variablesOfOptArguments args' @ variablesOfDirectives ds\<rparr>"
  show ?case
  proof (cases sel)
    case None
    with r en p have lv: "fieldLeave schema (Field a n args' ds None) s2 = (Some x', s')"
      by (simp add: s2_def)
    from fieldLeave_Some(1) [OF lv] show ?thesis
      by auto
  next
    case (Some ss)
    obtain ss' s3 where v: "visitSelections iat schema validFragments ss s2 = (ss', s3)"
      by (cases "visitSelections iat schema validFragments ss s2")
    with r en p Some
    have lv: "fieldLeave schema (Field a n args' ds (Some ss')) s3 = (Some x', s')"
      by (simp add: s2_def)
    from "1.IH" [OF en p [symmetric] s2_def Some v] fieldLeave_Some(1) [OF lv]
    show ?thesis
      by auto
  qed
next
  case (2 iat schema validFragments n ds s)
  then show ?case by (cases "validFragments n") (auto simp: Let_def split: if_splits)
next
  case (3 iat schema validFragments tc ds ss s)
  note r = "3.prems"
  from r obtain s1 where en: "inlineFragmentEnter iat schema tc s = Some s1"
    by (cases "inlineFragmentEnter iat schema tc s") auto
  define s2 where "s2 = s1\<lparr>usedVariables := usedVariables s1 @ variablesOfDirectives ds\<rparr>"
  obtain ss' s3 where v: "visitSelections iat schema validFragments ss s2 = (ss', s3)"
    by (cases "visitSelections iat schema validFragments ss s2")
  from r en v have "x' = InlineFragment tc ds ss'"
    by (simp add: s2_def)
  with "3.IH" [OF en s2_def v] show ?case
    by auto
next
  case (4 iat schema validFragments s)
  then show ?case by simp
next
  case (5 iat schema validFragments x xs s)
  note r = "5.prems"
  obtain r1 s1 where v1: "visitSelection iat schema validFragments x s = (r1, s1)"
    by (cases "visitSelection iat schema validFragments x s")
  obtain rs2 s2 where v2: "visitSelections iat schema validFragments xs s1 = (rs2, s2)"
    by (cases "visitSelections iat schema validFragments xs s1")
  from r v1 v2 have e: "rs = (case r1 of None \<Rightarrow> rs2 | Some x' \<Rightarrow> x' # rs2)"
    by auto
  show ?case
  proof (cases r1)
    case None
    with e "5.IH"(2) [OF v1 [symmetric] v2] show ?thesis by auto
  next
    case (Some y)
    with e "5.IH"(1) [OF v1 [unfolded Some]] "5.IH"(2) [OF v1 [symmetric] v2] show ?thesis
      by auto
  qed
qed

lemma filterSelectionSet_variables:
  assumes "filterSelectionSet iat S t vf sels = (sels', uf, uv)"
  shows "set uv = set (variablesOfSelections sels')"
    and "uf = spreadsOfSelections sels'"
    and "set (variablesOfSelections sels') \<subseteq> set (variablesOfSelections sels)"
proof -
  obtain s' where v: "visitSelections iat S vf sels (initialState t) = (sels', s')"
    and u: "uf = usedFragments s'" "uv = usedVariables s'"
    using assms by (auto simp: filterSelectionSet_def split: prod.splits)
  from visit_used(2) [OF v] have "mset uv = mset (variablesOfSelections sels')"
    and "uf = spreadsOfSelections sels'"
    by (simp_all add: u initialState_def)
  then show "set uv = set (variablesOfSelections sels')" and "uf = spreadsOfSelections sels'"
    by (auto dest: mset_eq_setD)
  from filtered_variables_subset(2) [OF v]
  show "set (variablesOfSelections sels') \<subseteq> set (variablesOfSelections sels)" .
qed


section \<open>union\<close>

lemma fold_unionItem_inv:
  "\<exists>r'. fold unionItem xs (set r, r) = (set r', r') \<and> set r' = set r \<union> set xs"
proof (induction xs arbitrary: r)
  case Nil
  then show ?case by simp
next
  case (Cons x xs)
  show ?case
  proof (cases "x \<in> set r")
    case True
    with Cons.IH [of r] show ?thesis
      by (auto simp: unionItem_def)
  next
    case False
    with Cons.IH [of "r @ [x]"] show ?thesis
      by (auto simp: unionItem_def)
  qed
qed

lemma set_unionArrays2 [simp]: "set (unionArrays [xs, ys]) = set xs \<union> set ys"
proof -
  from fold_unionItem_inv [of xs "[]"] obtain r1
    where 1: "fold unionItem xs ({}, []) = (set r1, r1)" "set r1 = set xs"
    by auto
  from fold_unionItem_inv [of ys r1] obtain r2
    where 2: "fold unionItem ys (set r1, r1) = (set r2, r2)" "set r2 = set r1 \<union> set ys"
    by auto
  from 1 2 show ?thesis
    by (simp add: unionArrays_def)
qed

lemma unionArrays_empty [simp]: "unionArrays [[], []] = []"
  by (simp add: unionArrays_def)

section \<open>The worklist loop\<close>

text \<open>An invariant of the loop body holds of the result, whenever the loop returns.\<close>

lemma collectLoop_invariant:
  assumes run: "collectLoop iat S vfs vf st = Some y"
      and init: "I st"
      and step: "\<And>st. I st \<Longrightarrow> cUsedFragments st \<noteq> [] \<Longrightarrow> I (collectStep iat S vfs vf st)"
  shows "I y \<and> cUsedFragments y = []"
proof -
  let ?P = "\<lambda>iat' S' vfs' vf' st y.
              iat' = iat \<and> S' = S \<and> vfs' = vfs \<and> vf' = vf \<longrightarrow> I st \<longrightarrow> I y \<and> cUsedFragments y = []"
  have "?P iat S vfs vf st y"
  proof (rule collectLoop.raw_induct [where P = ?P, OF _ run])
    fix f iat' S' vfs' vf' st y
    assume ih: "\<And>iat' S' vfs' vf' st y. f iat' S' vfs' vf' st = Some y \<Longrightarrow> ?P iat' S' vfs' vf' st y"
      and eq: "(if cUsedFragments st = [] then Some st
                else f iat' S' vfs' vf' (collectStep iat' S' vfs' vf' st)) = Some y"
    show "?P iat' S' vfs' vf' st y"
    proof (cases "cUsedFragments st = []")
      case True
      with eq show ?thesis by simp
    next
      case False
      with eq have "f iat' S' vfs' vf' (collectStep iat' S' vfs' vf' st) = Some y"
        by simp
      from ih [OF this] step False show ?thesis
        by auto
    qed
  qed
  with init show ?thesis by simp
qed

text \<open>A state with a non-empty worklist that the loop body maps to itself is never left.\<close>

lemma collectLoop_fixed_state:
  assumes nonempty: "cUsedFragments st \<noteq> []"
      and fixed: "collectStep iat S vfs vf st = st"
  shows "collectLoop iat S vfs vf st = None"
proof (rule ccontr)
  assume "collectLoop iat S vfs vf st \<noteq> None"
  then obtain y where run: "collectLoop iat S vfs vf st = Some y"
    by auto
  let ?P = "\<lambda>iat' S' vfs' vf' st' (y :: collectState).
              \<not> (iat' = iat \<and> S' = S \<and> vfs' = vfs \<and> vf' = vf \<and> st' = st)"
  have "?P iat S vfs vf st y"
  proof (rule collectLoop.raw_induct [where P = ?P, OF _ run])
    fix f iat' S' vfs' vf' st' y
    assume ih: "\<And>iat' S' vfs' vf' st' y. f iat' S' vfs' vf' st' = Some y \<Longrightarrow> ?P iat' S' vfs' vf' st' y"
      and eq: "(if cUsedFragments st' = [] then Some st'
                else f iat' S' vfs' vf' (collectStep iat' S' vfs' vf' st')) = Some y"
    show "?P iat' S' vfs' vf' st' y"
    proof
      assume a: "iat' = iat \<and> S' = S \<and> vfs' = vfs \<and> vf' = vf \<and> st' = st"
      with eq nonempty fixed have "f iat S vfs vf st = Some y"
        by simp
      from ih [OF this] show False by simp
    qed
  qed
  then show False by simp
qed

lemma find_Some_mem: "find P xs = Some x \<Longrightarrow> x \<in> set xs \<and> P x"
  by (auto simp: find_Some_iff)



section \<open>The operations of the output\<close>

lemma filterOperation_Some:
  assumes "filterOperation iat S vfs vf ds op = Some ds'"
  obtains sel uf uv c where
    "filterSelectionSet iat S (rootType S (operation op)) vf (operationSelectionSet op)
       = (sel, uf, uv)"
    "collectFragmentVariables iat S (dFragmentSet ds) vfs vf (unionArrays [dUsedFragments ds, uf])
       = Some c"
    "ds' = \<lparr>dUsedFragments = cCallerArray c,
            dNewOperations = dNewOperations ds @
              [OperationDefinition (operation op) (operationName op)
                 (filter (\<lambda>v. variableName v \<in> set uv \<union> set (cUsedVariables c))
                    (variableDefinitions op))
                 (operationDirectives op) sel],
            dNewFragments = cNewFragments c, dFragmentSet = cFragmentSet c\<rparr>"
  using assms
  by (auto simp: filterOperation_def Let_def split: prod.splits option.splits)


lemma operationsOf_fragments [simp]: "operationsOf (map FragmentDef frs) = []"
  by (induction frs) simp_all

lemma fragmentsOf_fragments [simp]: "fragmentsOf (map FragmentDef frs) = frs"
  by (induction frs) simp_all

lemma operationsOf_output [simp]:
  "operationsOf (map OperationDef ops @ map FragmentDef frs) = ops"
  by (induction ops) simp_all








section \<open>Pruning of fields with an emptied selection set\<close>



section \<open>Fragments that spread themselves\<close>

lemma loop_first_turn: "collectStep implementsAbstractType exampleSchema [loopFragment]
     (validFragmentsWithTypeOf exampleSchema [loopFragment])
     \<lparr>cUsedFragments = [''Loop''], cCallerArray = [''Loop''], cAliased = True,
        cUsedVariables = [], cNewFragments = [], cFragmentSet = {}\<rparr> = loopState"
  by code_simp

lemma loop_later_turns: "collectStep implementsAbstractType exampleSchema [loopFragment]
     (validFragmentsWithTypeOf exampleSchema [loopFragment]) loopState = loopState"
  by code_simp

lemma loop_valid_fragments: "validFragmentsOf exampleSchema [loopFragment] = [loopFragment]"
  by code_simp

lemma loop_operation_filtered: "filterSelectionSet implementsAbstractType exampleSchema (rootType exampleSchema Query)
     (validFragmentsWithTypeOf exampleSchema [loopFragment]) [FragmentSpread ''Loop'' []]
     = ([FragmentSpread ''Loop'' []], [''Loop''], [])"
  by code_simp

text \<open>
  C2. On \<open>cyclicDocument\<close> the worklist loop does not return. The first turn pops \<open>Loop\<close>,
  emits the fragment and puts \<open>Loop\<close> back on the worklist, since the filtered fragment spreads
  it; from then on every turn pops \<open>Loop\<close> and puts it back. The test on \<open>fragmentSet\<close>
  guards the emission only, not the worklist.
\<close>

theorem cyclic_fragment_never_returns:
  "collectFragmentVariables implementsAbstractType exampleSchema {} [loopFragment]
     (validFragmentsWithTypeOf exampleSchema [loopFragment]) [''Loop''] = None \<and>
   filterDocumentToSchema implementsAbstractType exampleSchema cyclicDocument = None"
proof -
  have "collectLoop implementsAbstractType exampleSchema [loopFragment]
          (validFragmentsWithTypeOf exampleSchema [loopFragment]) loopState = None"
    by (rule collectLoop_fixed_state) (simp add: loopState_def, rule loop_later_turns)
  then have collect: "collectFragmentVariables implementsAbstractType exampleSchema {} [loopFragment]
          (validFragmentsWithTypeOf exampleSchema [loopFragment]) [''Loop''] = None"
    unfolding collectFragmentVariables_def
    by (subst collectLoop.simps) (simp add: loop_first_turn)
  have "unionArrays [[], [''Loop'']] = [''Loop'']"
    by code_simp
  with collect have "filterOperation implementsAbstractType exampleSchema [loopFragment]
     (validFragmentsWithTypeOf exampleSchema [loopFragment])
     \<lparr>dUsedFragments = [], dNewOperations = [], dNewFragments = [], dFragmentSet = {}\<rparr>
     (OperationDefinition Query None [] [] [FragmentSpread ''Loop'' []]) = None"
    by (simp add: filterOperation_def loop_operation_filtered)
  then have "filterDocumentToSchema implementsAbstractType exampleSchema cyclicDocument = None"
    by (simp add: filterDocumentToSchema_def loop_valid_fragments cyclicDocument_def Let_def)
  with collect show ?thesis
    by simp
qed

section \<open>Documents with several operations\<close>

text \<open>
  With a single operation the closure is sound: whenever the filter returns, every fragment
  spread of the output names a fragment definition of the output.
\<close>

lemma validFragmentsWithTypeOf_name:
  "fold (\<lambda>fragment m. m(fragmentName fragment := getType S (typeCondition fragment))) vfs m0 n \<noteq> None
     \<Longrightarrow> m0 n \<noteq> None \<or> (\<exists>fr \<in> set vfs. fragmentName fr = n)"
proof (induction vfs arbitrary: m0)
  case Nil
  then show ?case by simp
next
  case (Cons a vfs)
  let ?m = "m0(fragmentName a := getType S (typeCondition a))"
  from Cons.prems have "fold (\<lambda>fragment m. m(fragmentName fragment := getType S (typeCondition fragment)))
                          vfs ?m n \<noteq> None"
    unfolding fold_Cons comp_apply .
  from Cons.IH [OF this] show ?case
    by (cases "fragmentName a = n") auto
qed

lemma valid_fragment_found:
  assumes "validFragmentsWithTypeOf S vfs n \<noteq> None"
  shows "\<exists>fr. find (\<lambda>fr. fragmentName fr = n) vfs = Some fr \<and> fragmentName fr = n"
proof -
  from validFragmentsWithTypeOf_name [of S vfs "\<lambda>n. None" n] assms
  have "\<exists>fr \<in> set vfs. fragmentName fr = n"
    by (simp add: validFragmentsWithTypeOf_def)
  then have "find (\<lambda>fr. fragmentName fr = n) vfs \<noteq> None"
    by (auto simp: find_None_iff)
  then show ?thesis
    by (auto dest: find_Some_mem)
qed

lemma collectStep_closed:
  assumes vf: "vf = validFragmentsWithTypeOf S vfs"
      and inv: "closedState vf names st"
      and nonempty: "cUsedFragments st \<noteq> []"
  shows "closedState vf names (collectStep iat S vfs vf st)"
proof -
  let ?n = "last (cUsedFragments st)"
  let ?rest = "butlast (cUsedFragments st)"
  let ?st' = "collectStep iat S vfs vf st"
  from nonempty have "cUsedFragments st = ?rest @ [?n]"
    by simp
  then have "set (cUsedFragments st) = set (?rest @ [?n])"
    by (rule arg_cong)
  then have w: "set (cUsedFragments st) = insert ?n (set ?rest)"
    by simp
  from inv have i1: "cFragmentSet st = fragmentName ` set (cNewFragments st)"
    and i2: "names \<subseteq> cFragmentSet st \<union> set (cUsedFragments st)"
    and i3: "\<forall>f \<in> set (cNewFragments st).
         set (spreadsOfSelections (fragmentSelectionSet f))
           \<subseteq> cFragmentSet st \<union> set (cUsedFragments st)"
    and i4: "\<forall>n \<in> set (cUsedFragments st). vf n \<noteq> None"
    unfolding closedState_def by blast+
  from w have w': "set (cUsedFragments st) \<subseteq> insert ?n (set ?rest)"
    and r: "set ?rest \<subseteq> set (cUsedFragments st)" and l: "?n \<in> set (cUsedFragments st)"
    by auto
  from i4 l have "vf ?n \<noteq> None"
    by blast
  with valid_fragment_found [of S vfs ?n] vf obtain fr
    where fr: "find (\<lambda>fr. fragmentName fr = ?n) vfs = Some fr" "fragmentName fr = ?n"
    by auto
  obtain sel uf uv where f: "filterSelectionSet iat S (getType S (typeCondition fr)) vf
                               (fragmentSelectionSet fr) = (sel, uf, uv)"
    by (cases "filterSelectionSet iat S (getType S (typeCondition fr)) vf (fragmentSelectionSet fr)")
  then obtain s' where v: "visitSelections iat S vf (fragmentSelectionSet fr)
                               (initialState (getType S (typeCondition fr))) = (sel, s')"
    by (auto simp: filterSelectionSet_def split: prod.splits)
  from filterSelectionSet_variables(2) [OF f] have uf: "uf = spreadsOfSelections sel" .
  from spreads_are_valid_fragments(2) [OF v] uf have ufv: "\<forall>n \<in> set uf. vf n \<noteq> None"
    by simp
  have wl: "set (cUsedFragments ?st') = set ?rest \<union> set uf"
    using fr(1) f by (simp add: collectStep_def Let_def)
  show ?thesis
  proof (cases "?n \<in> cFragmentSet st")
    case True
    have fs: "cFragmentSet ?st' = cFragmentSet st"
      and nf: "cNewFragments ?st' = cNewFragments st"
      using True fr(1) f by (simp_all add: collectStep_def Let_def)
    have "names \<subseteq> cFragmentSet ?st' \<union> set (cUsedFragments ?st')"
      using i2 w' True unfolding fs wl by blast
    moreover have "\<forall>f \<in> set (cNewFragments ?st').
         set (spreadsOfSelections (fragmentSelectionSet f))
           \<subseteq> cFragmentSet ?st' \<union> set (cUsedFragments ?st')"
      using i3 w' True unfolding fs wl nf by blast
    moreover have "\<forall>n \<in> set (cUsedFragments ?st'). vf n \<noteq> None"
      using i4 r ufv unfolding wl by blast
    ultimately show ?thesis
      using i1 by (simp add: closedState_def fs nf)
  next
    case False
    have fs: "cFragmentSet ?st' = insert ?n (cFragmentSet st)"
      and nf: "cNewFragments ?st' = cNewFragments st @ [FragmentDefinition ?n (typeCondition fr) [] sel]"
      using False fr(1) f by (simp_all add: collectStep_def Let_def)
    have "names \<subseteq> cFragmentSet ?st' \<union> set (cUsedFragments ?st')"
      using i2 w' unfolding fs wl by blast
    moreover have "\<forall>f \<in> set (cNewFragments ?st').
         set (spreadsOfSelections (fragmentSelectionSet f))
           \<subseteq> cFragmentSet ?st' \<union> set (cUsedFragments ?st')"
    proof
      fix g assume "g \<in> set (cNewFragments ?st')"
      then have "g \<in> set (cNewFragments st) \<or> g = FragmentDefinition ?n (typeCondition fr) [] sel"
        by (auto simp: nf)
      then show "set (spreadsOfSelections (fragmentSelectionSet g))
           \<subseteq> cFragmentSet ?st' \<union> set (cUsedFragments ?st')"
      proof
        assume "g \<in> set (cNewFragments st)"
        with i3 w' show ?thesis unfolding fs wl by blast
      next
        assume "g = FragmentDefinition ?n (typeCondition fr) [] sel"
        with uf show ?thesis unfolding fs wl by auto
      qed
    qed
    moreover have "\<forall>n \<in> set (cUsedFragments ?st'). vf n \<noteq> None"
      using i4 r ufv unfolding wl by blast
    moreover have "cFragmentSet ?st' = fragmentName ` set (cNewFragments ?st')"
      using i1 by (simp add: fs nf)
    ultimately show ?thesis
      by (simp add: closedState_def)
  qed
qed

lemma single_operation_no_dangling_spreads:
  assumes one: "operationsOf doc = [op]"
      and run: "filterDocumentToSchema iat S doc = Some out"
  shows "danglingSpreads out = []"
proof -
  let ?vfs = "validFragmentsOf S (fragmentsOf doc)"
  let ?vf = "validFragmentsWithTypeOf S ?vfs"
  let ?ds0 = "\<lparr>dUsedFragments = [], dNewOperations = [], dNewFragments = [], dFragmentSet = {}\<rparr>"
  from run one obtain ds where fo: "filterOperation iat S ?vfs ?vf ?ds0 op = Some ds"
    and out: "out = map OperationDef (dNewOperations ds) @ map FragmentDef (dNewFragments ds)"
    by (auto simp: filterDocumentToSchema_def Let_def split: option.splits)
  from fo obtain sel uf uv c where
    f: "filterSelectionSet iat S (rootType S (operation op)) ?vf (operationSelectionSet op)
          = (sel, uf, uv)"
    and c: "collectFragmentVariables iat S {} ?vfs ?vf (unionArrays [[], uf]) = Some c"
    and d: "dNewOperations ds = [OperationDefinition (operation op) (operationName op)
                 (filter (\<lambda>v. variableName v \<in> set uv \<union> set (cUsedVariables c))
                    (variableDefinitions op))
                 (operationDirectives op) sel]"
       "dNewFragments ds = cNewFragments c"
    by (rule filterOperation_Some) simp
  from f obtain s' where v: "visitSelections iat S ?vf (operationSelectionSet op)
                               (initialState (rootType S (operation op))) = (sel, s')"
    by (auto simp: filterSelectionSet_def split: prod.splits)
  from filterSelectionSet_variables(2) [OF f] have uf: "uf = spreadsOfSelections sel" .
  from spreads_are_valid_fragments(2) [OF v] uf have ufv: "\<forall>n \<in> set uf. ?vf n \<noteq> None"
    by simp
  have "closedState ?vf (set uf) c \<and> cUsedFragments c = []"
  proof (rule collectLoop_invariant [where I = "closedState ?vf (set uf)"])
    show "collectLoop iat S ?vfs ?vf
            \<lparr>cUsedFragments = unionArrays [[], uf], cCallerArray = unionArrays [[], uf],
             cAliased = True, cUsedVariables = [], cNewFragments = [], cFragmentSet = {}\<rparr> = Some c"
      using c by (simp add: collectFragmentVariables_def)
  next
    show "closedState ?vf (set uf)
            \<lparr>cUsedFragments = unionArrays [[], uf], cCallerArray = unionArrays [[], uf],
             cAliased = True, cUsedVariables = [], cNewFragments = [], cFragmentSet = {}\<rparr>"
      using ufv by (simp add: closedState_def)
  next
    fix st :: collectState
    assume "closedState ?vf (set uf) st" "cUsedFragments st \<noteq> []"
    then show "closedState ?vf (set uf) (collectStep iat S ?vfs ?vf st)"
      by (intro collectStep_closed) simp_all
  qed
  then have cs: "closedState ?vf (set uf) c" and we: "cUsedFragments c = []"
    by simp_all
  from cs have fsn: "cFragmentSet c = fragmentName ` set (cNewFragments c)"
    and a0: "set uf \<subseteq> cFragmentSet c \<union> set (cUsedFragments c)"
    and b0: "\<forall>f \<in> set (cNewFragments c).
           set (spreadsOfSelections (fragmentSelectionSet f))
             \<subseteq> cFragmentSet c \<union> set (cUsedFragments c)"
    unfolding closedState_def by blast+
  from a0 we fsn have a: "set uf \<subseteq> fragmentName ` set (cNewFragments c)"
    by simp
  from b0 we fsn have b: "\<forall>f \<in> set (cNewFragments c).
           set (spreadsOfSelections (fragmentSelectionSet f)) \<subseteq> fragmentName ` set (cNewFragments c)"
    by simp
  have o: "operationsOf out = dNewOperations ds" and fr: "fragmentsOf out = cNewFragments c"
    using out d by simp_all
  have "n \<in> fragmentName ` set (fragmentsOf out)"
    if n: "n \<in> set (concat (map (\<lambda>op. spreadsOfSelections (operationSelectionSet op)) (operationsOf out))
                 @ concat (map (\<lambda>fr. spreadsOfSelections (fragmentSelectionSet fr)) (fragmentsOf out)))"
    for n
  proof -
    from n have "n \<in> set uf \<or> (\<exists>f \<in> set (cNewFragments c).
                   n \<in> set (spreadsOfSelections (fragmentSelectionSet f)))"
      unfolding o fr d(1) using uf by auto
    with a b show ?thesis
      unfolding fr by blast
  qed
  then show ?thesis
    unfolding danglingSpreads_def filter_empty_conv by blast
qed

text \<open>
  C1. With a second operation the closure is lost. On \<open>twoOperations\<close>, a document
  without dangling spreads, the output keeps the spread \<open>...NameFields\<close> in the first
  operation and holds no fragment definition at all: the fragments collected for the first
  operation are overwritten by those collected for the second one, which are none.
\<close>

theorem two_operations_lose_fragment:
  "filterDocumentToSchema implementsAbstractType exampleSchema twoOperations
     = Some [OperationDef (OperationDefinition Query (Some ''First'') [] [] [FragmentSpread ''NameFields'' []]),
             OperationDef (OperationDefinition Query (Some ''Second'') [] [] [leaf ''name''])]
   \<and> danglingSpreads twoOperations = []
   \<and> danglingSpreads (the (filterDocumentToSchema implementsAbstractType exampleSchema twoOperations))
       = [''NameFields'']"
  by code_simp

section \<open>The depth of the type stack\<close>

text \<open>
  C5. The walk starts the root selection set with one type on the stack. In
  \<open>{ u { id } bogus }\<close> the field \<open>u\<close> has a union type: on entering \<open>id\<close> below it
  nothing is pushed, on leaving \<open>id\<close> the union type is popped, and on leaving \<open>u\<close> the root
  type is popped. The walk is back at the root selection set with an empty stack, and the
  unknown field \<open>bogus\<close> is kept as it is.
\<close>

theorem union_field_unbalances_stack:
  "visitSelections implementsAbstractType exampleSchema (\<lambda>n. None)
      [Field None ''u'' (Some []) [] (Some [leaf ''id'']), leaf ''bogus'']
      (initialState (getQueryType exampleSchema))
   = ([Field None ''u'' (Some []) [] (Some [leaf ''id'']), leaf ''bogus''],
      \<lparr>typeStack = [], usedFragments = [], usedVariables = []\<rparr>)"
  by code_simp

section \<open>Documents that are valid already\<close>





lemma reachableFragments_empty [simp]: "reachableFragments frs [] = {}"
proof -
  have "fr \<in> reachableFragments frs [] \<Longrightarrow> False" for fr
    by (induction rule: reachableFragments.induct) simp_all
  then show ?thesis by blast
qed













end
